theory Spec2Isabelle
  imports Complex_Main "HOL-Library.Multiset"
begin

section \<open>The Wren decomposition engine (views/wren/lib/wren)\<close>

text \<open>
  The class \<open>Wren\<close> turns a polygon outline into edges ("lines") with sub-points, blocks,
  corners, reinforcer loops, fin pieces and walls. JavaScript numbers are modelled as
  \<^typ>\<open>real\<close>; every statement below is about the structure of the computed sequences
  (which elements, in which order, how many), not about rounding.

  The geometry helpers the class imports (\<open>utils/point\<close>, \<open>clipper\<close>) and the tile
  classes (\<open>Block\<close>, \<open>Corner\<close>, \<open>Wall\<close>) live in other modules. They are taken as
  parameters, gathered in the record \<open>collab\<close>, and every theorem holds for all of them.
  The two helpers of \<open>utils/list\<close> that fix the cyclic structure, \<open>loopifyInPairs\<close> and
  \<open>safeIndex\<close>, are modelled from their description.
\<close>

subsection \<open>Data\<close>

type_synonym point = "real \<times> real"

text \<open>
  \<open>new Block(angle, p, i0, i1, o1, o0)\<close> and \<open>new Corner(a, b, c, d, e, f)\<close>: a tile is
  recorded with the arguments its constructor was called with, in call order. A Corner
  argument that is read out of range of its array is JavaScript's \<open>undefined\<close>, here \<open>None\<close>.
\<close>

datatype geometry =
    Block real point point point point point
  | Corner "point option" "point option" "point option" "point option" "point option" "point option"

text \<open>\<open>new Wall(distance, anchor, angle, [p, q])\<close>, recorded with its arguments.\<close>

datatype wall = Wall real point real "point list"

text \<open>The two fields of the result of \<open>bounds\<close> that the class reads.\<close>

record bbox =
  minX :: real
  maxY :: real

text \<open>
  The imported collaborators. \<open>offset points {DELTA: d}\<close> is \<open>offset c points d\<close>;
  \<open>pointOnLine(i)(a, b)\<close> is \<open>pointOnLine c i a b\<close>; \<open>rotateAroundPoint(p, t)(q)\<close> is
  \<open>rotateAroundPoint c p t q\<close>; the properties \<open>outerPoints\<close> and \<open>innerPoints\<close> of a
  Block or Corner are \<open>tileOuterPoints c g\<close> and \<open>tileInnerPoints c g\<close>; the property
  \<open>points\<close> of a Wall is \<open>wallPoints c w\<close>.
\<close>

record collab =
  offset :: "point list \<Rightarrow> real \<Rightarrow> point list"
  bounds :: "point list \<Rightarrow> bbox"
  distance :: "point \<Rightarrow> point \<Rightarrow> real"
  angle :: "point \<Rightarrow> point \<Rightarrow> real"
  pointOnLine :: "real \<Rightarrow> point \<Rightarrow> point \<Rightarrow> point"
  rotateAroundPoint :: "point \<Rightarrow> real \<Rightarrow> point \<Rightarrow> point"
  tileOuterPoints :: "geometry \<Rightarrow> point list"
  tileInnerPoints :: "geometry \<Rightarrow> point list"
  wallPoints :: "wall \<Rightarrow> point list"

text \<open>
  The interface \<open>Line\<close>. Its fields \<open>angle\<close> and \<open>length\<close> are named \<open>lineAngle\<close> and
  \<open>lineLength\<close> here (the names of the local variables they are filled from).
\<close>

record line =
  subPoints :: "point list"
  outerSubPoints :: "point list"
  innerSubPoints :: "point list"
  lineAngle :: real
  lineLength :: real
  blocks :: "geometry list"
  corner :: "geometry option"

definition pointDistance :: real where
  "pointDistance = 15"

definition finWidth :: real where
  "finWidth = 25 / 2"

subsection \<open>List utilities (utils/list)\<close>

text \<open>
  Modelled from the spec: \<open>loopifyInPairs\<close> of \<open>utils/list\<close> is not in the sources. The
  spec describes it as the cyclic pairing of a sequence, each point with its successor and
  the last with the first, so that there are as many pairs as points.
\<close>

definition loopifyInPairs :: "'a list \<Rightarrow> ('a \<times> 'a) list" where
  "loopifyInPairs xs = zip xs (rotate1 xs)"

text \<open>
  Modelled from the spec: \<open>safeIndex\<close> of \<open>utils/list\<close> is not in the sources. The spec
  describes it as the cyclic-safe index \<open>i mod n\<close>. The class only applies it with
  \<open>1 \<le> n\<close> and \<open>1 \<le> i \<le> n\<close>.
\<close>

definition safeIndex :: "nat \<Rightarrow> nat \<Rightarrow> nat" where
  "safeIndex n i = i mod n"

text \<open>\<open>xs[k]\<close> for an integer \<open>k\<close>: \<open>undefined\<close> (\<open>None\<close>) outside \<open>0 .. length - 1\<close>.\<close>

definition jsIndex :: "'a list \<Rightarrow> int \<Rightarrow> 'a option" where
  "jsIndex xs k = (if 0 \<le> k \<and> k < int (length xs) then Some (xs ! nat k) else None)"

subsection \<open>calculateLines\<close>

text \<open>
  One of the two loops \<open>for (i = pointDistance; i < halfLength; i += pointDistance * 2)\<close>
  with the points it pushes, in push order; \<open>i\<close> is the current value of the loop variable.
\<close>

function halfPoints :: "collab \<Rightarrow> point \<Rightarrow> point \<Rightarrow> real \<Rightarrow> real \<Rightarrow> point list" where
  "halfPoints c a b halfLength i =
     (if i < halfLength
      then pointOnLine c i a b # halfPoints c a b halfLength (i + pointDistance * 2)
      else [])"
  by pat_completeness auto
termination
proof (relation "measure (\<lambda>(c, a, b, halfLength, i). nat \<lceil>halfLength - i\<rceil>)")
  show "wf (measure (\<lambda>(c, a, b, halfLength, i). nat \<lceil>halfLength - i\<rceil>))"
    by simp
next
  fix c :: collab and a b :: point and halfLength i :: real
  assume lt: "i < halfLength"
  have "halfLength - (i + pointDistance * 2) = (halfLength - i) - 30"
    by (simp add: pointDistance_def)
  then have "\<lceil>halfLength - (i + pointDistance * 2)\<rceil> = \<lceil>halfLength - i\<rceil> - 30"
    by (simp only: ceiling_diff_numeral)
  moreover have "0 < \<lceil>halfLength - i\<rceil>"
    using lt by simp
  ultimately show "((c, a, b, halfLength, i + pointDistance * 2), (c, a, b, halfLength, i))
      \<in> measure (\<lambda>(c, a, b, halfLength, i). nat \<lceil>halfLength - i\<rceil>)"
    by simp
qed

text \<open>The values the loop variable takes in that loop, in order.\<close>

function stepDistances :: "real \<Rightarrow> real \<Rightarrow> real list" where
  "stepDistances halfLength i =
     (if i < halfLength then i # stepDistances halfLength (i + pointDistance * 2) else [])"
  by pat_completeness auto
termination
proof (relation "measure (\<lambda>(halfLength, i). nat \<lceil>halfLength - i\<rceil>)")
  show "wf (measure (\<lambda>(halfLength, i). nat \<lceil>halfLength - i\<rceil>))"
    by simp
next
  fix halfLength i :: real
  assume lt: "i < halfLength"
  have "halfLength - (i + pointDistance * 2) = (halfLength - i) - 30"
    by (simp add: pointDistance_def)
  then have "\<lceil>halfLength - (i + pointDistance * 2)\<rceil> = \<lceil>halfLength - i\<rceil> - 30"
    by (simp only: ceiling_diff_numeral)
  moreover have "0 < \<lceil>halfLength - i\<rceil>"
    using lt by simp
  ultimately show "((halfLength, i + pointDistance * 2), (halfLength, i))
      \<in> measure (\<lambda>(halfLength, i). nat \<lceil>halfLength - i\<rceil>)"
    by simp
qed

declare halfPoints.simps [simp del]
declare stepDistances.simps [simp del]

text \<open>
  The loop \<open>for (i = 0; i < subPoints.length - 1; i++) blocks.push(new Block(...))\<close>.
  For an empty \<open>subPoints\<close> the bound is \<open>-1\<close> and the loop body never runs; the
  truncating subtraction on \<open>nat\<close> gives the same empty range. Every index read is below
  the length of \<open>subPoints\<close>, and the three lists have the same length.
\<close>

definition makeBlocks :: "real \<Rightarrow> point list \<Rightarrow> point list \<Rightarrow> point list \<Rightarrow> geometry list" where
  "makeBlocks a sub inner outer =
     map (\<lambda>i. Block a (sub ! i) (inner ! i) (inner ! (i + 1)) (outer ! (i + 1)) (outer ! i))
       [0 ..< length sub - 1]"

text \<open>The callback of \<open>loopifyInPairs(_points).map\<close>: one edge from its two end points.\<close>

definition calculateLine :: "collab \<Rightarrow> point \<times> point \<Rightarrow> line" where
  "calculateLine c se =
     (case se of (start, end) \<Rightarrow>
        let la = angle c start end;
            len = distance c start end;
            halfLength = len / 2;
            firstPoints = halfPoints c start end halfLength pointDistance;
            lastPoints = halfPoints c end start halfLength pointDistance;
            sub = firstPoints @ rev lastPoints;
            inner = map (\<lambda>p. rotateAroundPoint c p la (fst p, snd p + finWidth)) sub;
            outer = map (\<lambda>p. rotateAroundPoint c p la (fst p, snd p - finWidth)) sub
        in \<lparr> subPoints = sub, outerSubPoints = outer, innerSubPoints = inner,
             lineAngle = la, lineLength = len,
             blocks = makeBlocks la sub inner outer, corner = None \<rparr>)"

definition calculateLines :: "collab \<Rightarrow> point list \<Rightarrow> line list" where
  "calculateLines c pts = map (calculateLine c) (loopifyInPairs pts)"

subsection \<open>Errors\<close>

text \<open>
  The only failure the class itself can raise: reading a property of \<open>undefined\<close>
  (\<open>this.lines[i].angle\<close> with \<open>i\<close> out of range, \<open>geometry.outerPoints\<close> for a missing
  corner). It leaves the constructor, so no Wren is produced.
\<close>

datatype error = TypeError

text \<open>
  A loop \<open>for i ...: out.push(f(i))\<close> whose body may throw: the results in push order,
  or the first error.
\<close>

fun collect :: "(nat \<Rightarrow> error + 'a) \<Rightarrow> nat list \<Rightarrow> error + 'a list" where
  "collect f [] = Inr []"
| "collect f (i # is) =
     (case f i of
        Inl err \<Rightarrow> Inl err
      | Inr x \<Rightarrow> (case collect f is of Inl err \<Rightarrow> Inl err | Inr xs \<Rightarrow> Inr (x # xs)))"

subsection \<open>calculateCorners\<close>

text \<open>
  The expression \<open>new Corner(...)\<close> of the pass for index \<open>i\<close>, read from the current
  lines. The last argument reads \<open>innerSubPoints\<close> at the index
  \<open>outerSubPoints.length - 1\<close>, as the source does.
\<close>

definition newCorner :: "point list \<Rightarrow> point list \<Rightarrow> line list \<Rightarrow> nat \<Rightarrow> geometry" where
  "newCorner outerPts innerPts ls i =
     (let nextI = safeIndex (length ls) (i + 1);
          prevLine = ls ! i;
          nextLine = ls ! nextI
      in Corner
           (jsIndex (outerSubPoints prevLine) (int (length (outerSubPoints prevLine)) - 1))
           (jsIndex outerPts (int nextI))
           (jsIndex (outerSubPoints nextLine) 0)
           (jsIndex (innerSubPoints nextLine) 0)
           (jsIndex innerPts (int nextI))
           (jsIndex (innerSubPoints prevLine) (int (length (outerSubPoints prevLine)) - 1)))"

text \<open>One pass of the loop: \<open>prevLine.corner = corner\<close> updates \<open>this.lines[i]\<close>.\<close>

definition cornerStep :: "point list \<Rightarrow> point list \<Rightarrow> nat \<Rightarrow> line list \<Rightarrow> line list" where
  "cornerStep outerPts innerPts i ls =
     ls[i := (ls ! i)\<lparr>corner := Some (newCorner outerPts innerPts ls i)\<rparr>]"

definition calculateCorners :: "point list \<Rightarrow> point list \<Rightarrow> line list \<Rightarrow> line list" where
  "calculateCorners outerPts innerPts ls =
     fold (cornerStep outerPts innerPts) [0 ..< length ls] ls"

subsection \<open>calculateReinforcers\<close>

text \<open>
  \<open>flatMap(blocks, g => g.outerPoints).concat(flatMap(blocks.reverse(), g => g.innerPoints))\<close>:
  the first \<open>flatMap\<close> runs before the array is reversed.
\<close>

definition ring :: "collab \<Rightarrow> geometry list \<Rightarrow> point list" where
  "ring c gs = concat (map (tileOuterPoints c) gs) @ concat (map (tileInnerPoints c) (rev gs))"

text \<open>\<open>xs.slice(-2)\<close>: the last two elements, the whole array when it has fewer.\<close>

definition sliceLast2 :: "'a list \<Rightarrow> 'a list" where
  "sliceLast2 xs = drop (length xs - 2) xs"

text \<open>
  The tile group of one pass of the loop, \<open>[...prevLine.blocks.slice(-2), prevLine.corner,
  ...nextLine.blocks.slice(0, 2)]\<close>; reading a property of a missing corner throws.
\<close>

definition reinforcerGroup :: "line list \<Rightarrow> nat \<Rightarrow> error + geometry list" where
  "reinforcerGroup ls i =
     (let nextI = safeIndex (length ls) (i + 1);
          prevLine = ls ! i;
          nextLine = ls ! nextI
      in case corner prevLine of
           None \<Rightarrow> Inl TypeError
         | Some cnr \<Rightarrow> Inr (sliceLast2 (blocks prevLine) @ [cnr] @ take 2 (blocks nextLine)))"

definition calculateReinforcers :: "collab \<Rightarrow> line list \<Rightarrow> error + point list list" where
  "calculateReinforcers c ls =
     collect (\<lambda>i. case reinforcerGroup ls i of Inl err \<Rightarrow> Inl err | Inr gs \<Rightarrow> Inr (ring c gs))
       [0 ..< length ls]"

subsection \<open>calculateFinPieces\<close>

text \<open>
  The state of the loop is the pair of \<open>this.lines\<close> and \<open>this.finPieces\<close>. In one pass
  \<open>blocks\<close> is the array object of \<open>this.lines[i]\<close> itself, so \<open>blocks.reverse()\<close> reverses
  the line's \<open>blocks\<close> in place.
\<close>

definition finPieceStep :: "collab \<Rightarrow> nat \<Rightarrow> line list \<times> point list list \<Rightarrow> line list \<times> point list list" where
  "finPieceStep c i st =
     (case st of (ls, pieces) \<Rightarrow>
        let bs = blocks (ls ! i)
        in (ls[i := (ls ! i)\<lparr>blocks := rev bs\<rparr>], pieces @ [ring c bs]))"

definition calculateFinPieces :: "collab \<Rightarrow> line list \<Rightarrow> line list \<times> point list list" where
  "calculateFinPieces c ls = fold (finPieceStep c) [0 ..< length ls] (ls, [])"

subsection \<open>calculateWalls\<close>

text \<open>
  One pass of the loop: \<open>this.lines[i]\<close> is read with no bound check, and \<open>.angle\<close> of
  \<open>undefined\<close> throws.
\<close>

definition wallAt :: "collab \<Rightarrow> line list \<Rightarrow> point list \<Rightarrow> real \<Rightarrow> nat \<Rightarrow> error + point list" where
  "wallAt c ls pts d i =
     (if i < length ls
      then Inr (wallPoints c
             (Wall d (pts ! i) (lineAngle (ls ! i))
                [pts ! i, pts ! safeIndex (length pts) (i + 1)]))
      else Inl TypeError)"

definition calculateWalls :: "collab \<Rightarrow> line list \<Rightarrow> point list \<Rightarrow> real \<Rightarrow> error + point list list" where
  "calculateWalls c ls pts d = collect (wallAt c ls pts d) [0 ..< length pts]"

subsection \<open>The constructor\<close>

record wren =
  innerPoints :: "point list"
  outerPoints :: "point list"
  points :: "point list"
  normalizedPoints :: "point list"
  lines :: "line list"
  reinforcers :: "point list list"
  finPieces :: "point list list"
  outerWalls :: "point list list"
  innerWalls :: "point list list"

text \<open>
  \<open>new Wren(points)\<close>, statement by statement. The argument is \<open>raw\<close>; \<open>bounds\<close> is
  applied to the argument, \<open>calculateLines\<close> to the zero-delta offset.
\<close>

definition newWren :: "collab \<Rightarrow> point list \<Rightarrow> error + wren" where
  "newWren c raw =
     (let pts = offset c raw 0;
          pointBounds = bounds c raw;
          norm = map (\<lambda>(x, y). (x - minX pointBounds, maxY pointBounds - y)) pts;
          outerPts = offset c raw finWidth;
          innerPts = offset c raw (- finWidth);
          ls0 = calculateLines c pts;
          ls1 = calculateCorners outerPts innerPts ls0
      in case calculateReinforcers c ls1 of
           Inl err \<Rightarrow> Inl err
         | Inr reinf \<Rightarrow>
             (case calculateFinPieces c ls1 of (ls2, pieces) \<Rightarrow>
                (case calculateWalls c ls2 innerPts (- 120) of
                   Inl err \<Rightarrow> Inl err
                 | Inr inWalls \<Rightarrow>
                     (case calculateWalls c ls2 outerPts 120 of
                        Inl err \<Rightarrow> Inl err
                      | Inr outWalls \<Rightarrow>
                          Inr \<lparr> innerPoints = innerPts, outerPoints = outerPts, points = pts,
                                normalizedPoints = norm, lines = ls2, reinforcers = reinf,
                                finPieces = pieces, outerWalls = outWalls,
                                innerWalls = inWalls \<rparr>))))"

subsection \<open>Loop invariants\<close>

text \<open>
  The lines after the passes \<open>0 .. k - 1\<close> of \<open>calculateCorners\<close>, and the state after the
  passes \<open>0 .. k - 1\<close> of \<open>calculateFinPieces\<close>; both are shown to be what the loops
  compute.
\<close>

definition withCorners :: "point list \<Rightarrow> point list \<Rightarrow> line list \<Rightarrow> nat \<Rightarrow> line list" where
  "withCorners outerPts innerPts ls k =
     map (\<lambda>j. if j < k then (ls ! j)\<lparr>corner := Some (newCorner outerPts innerPts ls j)\<rparr>
               else ls ! j)
       [0 ..< length ls]"

definition finsDone :: "collab \<Rightarrow> line list \<Rightarrow> nat \<Rightarrow> line list \<times> point list list" where
  "finsDone c ls k =
     (map (\<lambda>j. if j < k then (ls ! j)\<lparr>blocks := rev (blocks (ls ! j))\<rparr> else ls ! j)
        [0 ..< length ls],
      map (\<lambda>j. ring c (blocks (ls ! j))) [0 ..< k])"

subsection \<open>Sample collaborators and polygons\<close>

text \<open>
  Concrete collaborators on which the model is run: Euclidean distance, interpolation
  along a segment, the direction angle, rotation about a point, the bounding box, and tiles
  and walls that expose the points they were built from. They are inputs of the theorems,
  not part of the class.
\<close>

definition euclidean :: "point \<Rightarrow> point \<Rightarrow> real" where
  "euclidean a b = sqrt ((fst b - fst a)\<^sup>2 + (snd b - snd a)\<^sup>2)"

definition along :: "real \<Rightarrow> point \<Rightarrow> point \<Rightarrow> point" where
  "along t a b =
     (fst a + t * (fst b - fst a) / euclidean a b, snd a + t * (snd b - snd a) / euclidean a b)"

definition direction :: "point \<Rightarrow> point \<Rightarrow> real" where
  "direction a b =
     (let dx = fst b - fst a; dy = snd b - snd a
      in if 0 < dx then arctan (dy / dx)
         else if dx < 0 then (if 0 \<le> dy then arctan (dy / dx) + pi else arctan (dy / dx) - pi)
         else if 0 < dy then pi / 2
         else if dy < 0 then - pi / 2
         else 0)"

definition rotateAbout :: "point \<Rightarrow> real \<Rightarrow> point \<Rightarrow> point" where
  "rotateAbout ctr t p =
     (fst ctr + (fst p - fst ctr) * cos t - (snd p - snd ctr) * sin t,
      snd ctr + (fst p - fst ctr) * sin t + (snd p - snd ctr) * cos t)"

definition boxBounds :: "point list \<Rightarrow> bbox" where
  "boxBounds ps =
     (case ps of
        [] \<Rightarrow> \<lparr> minX = 0, maxY = 0 \<rparr>
      | p # qs \<Rightarrow> \<lparr> minX = fold min (map fst qs) (fst p), maxY = fold max (map snd qs) (snd p) \<rparr>)"

text \<open>
  Two offsetters. \<open>boxOffset\<close> grows the bounding box by \<open>d\<close> on every side and lists
  its corners counter-clockwise from the minimum corner (the mitred offset of an
  axis-parallel rectangle; at delta 0 it only normalises the winding). \<open>bevelOffset\<close> cuts
  every corner of an outward offset, which doubles the number of points.
\<close>

definition boxCorners :: "real \<Rightarrow> real \<Rightarrow> real \<Rightarrow> real \<Rightarrow> point list" where
  "boxCorners x0 y0 x1 y1 = [(x0, y0), (x1, y0), (x1, y1), (x0, y1)]"

definition boxOffset :: "point list \<Rightarrow> real \<Rightarrow> point list" where
  "boxOffset ps d =
     (case ps of
        [] \<Rightarrow> []
      | p # qs \<Rightarrow>
          boxCorners (fold min (map fst qs) (fst p) - d) (fold min (map snd qs) (snd p) - d)
            (fold max (map fst qs) (fst p) + d) (fold max (map snd qs) (snd p) + d))"

definition bevelOffset :: "point list \<Rightarrow> real \<Rightarrow> point list" where
  "bevelOffset ps d =
     (if d \<le> 0 then boxOffset ps d
      else case ps of
        [] \<Rightarrow> []
      | p # qs \<Rightarrow>
          (let x0 = fold min (map fst qs) (fst p); y0 = fold min (map snd qs) (snd p);
               x1 = fold max (map fst qs) (fst p); y1 = fold max (map snd qs) (snd p)
           in [(x0, y0 - d), (x1, y0 - d), (x1 + d, y0), (x1 + d, y1),
               (x1, y1 + d), (x0, y1 + d), (x0 - d, y1), (x0 - d, y0)]))"

definition shownOuter :: "geometry \<Rightarrow> point list" where
  "shownOuter g =
     (case g of
        Block a p i0 i1 o1 o0 \<Rightarrow> [o0, o1]
      | Corner a b c d e f \<Rightarrow> List.map_filter id [a, b, c])"

definition shownInner :: "geometry \<Rightarrow> point list" where
  "shownInner g =
     (case g of
        Block a p i0 i1 o1 o0 \<Rightarrow> [i1, i0]
      | Corner a b c d e f \<Rightarrow> List.map_filter id [d, e, f])"

definition strip :: "wall \<Rightarrow> point list" where
  "strip w =
     (case w of
        Wall d anchor t seg \<Rightarrow>
          seg @ map (\<lambda>(x, y). (x - d * sin t, y + d * cos t)) (rev seg))"

definition sample :: collab where
  "sample =
     \<lparr> offset = boxOffset, bounds = boxBounds, distance = euclidean, angle = direction,
       pointOnLine = along, rotateAroundPoint = rotateAbout, tileOuterPoints = shownOuter,
       tileInnerPoints = shownInner, wallPoints = strip \<rparr>"

definition bevelSample :: collab where
  "bevelSample = sample\<lparr>offset := bevelOffset\<rparr>"

text \<open>The square of the concrete scenario, and a triangle with an edge of length 10.\<close>

definition square :: "point list" where
  "square = [(0, 0), (100, 0), (100, 100), (0, 100)]"

definition shortTriangle :: "point list" where
  "shortTriangle = [(0, 0), (10, 0), (0, 100)]"


section \<open>Properties of the model\<close>

lemma length_loopifyInPairs: "length (loopifyInPairs xs) = length xs"
  by (simp add: loopifyInPairs_def)

lemma halfPoints_stepDistances:
  "halfPoints c a b h i = map (\<lambda>d. pointOnLine c d a b) (stepDistances h i)"
proof (induction h i rule: stepDistances.induct)
  case (1 h i)
  show ?case
  proof (cases "i < h")
    case True
    with "1" show ?thesis
      by (subst halfPoints.simps, subst stepDistances.simps) simp
  next
    case False
    then show ?thesis
      by (subst halfPoints.simps, subst stepDistances.simps) simp
  qed
qed

lemma length_calculateLines: "length (calculateLines c pts) = length pts"
  by (simp add: calculateLines_def length_loopifyInPairs)

lemma loopifyInPairs_nth:
  "i < length xs \<Longrightarrow> loopifyInPairs xs ! i = (xs ! i, xs ! ((i + 1) mod length xs))"
  by (simp add: loopifyInPairs_def nth_rotate1)

lemma calculateLines_nth:
  "i < length pts \<Longrightarrow>
     calculateLines c pts ! i = calculateLine c (pts ! i, pts ! ((i + 1) mod length pts))"
  by (simp add: calculateLines_def loopifyInPairs_nth length_loopifyInPairs)

lemma collect_Inr:
  "(\<And>i. i \<in> set ks \<Longrightarrow> f i = Inr (g i)) \<Longrightarrow> collect f ks = Inr (map g ks)"
  by (induction ks) simp_all

lemma collect_Inl:
  "k \<in> set ks \<Longrightarrow> f k = Inl TypeError \<Longrightarrow> collect f ks = Inl TypeError"
proof (induction ks)
  case Nil
  then show ?case by simp
next
  case (Cons a ks)
  show ?case
  proof (cases "f a")
    case (Inl e)
    then show ?thesis by (cases e) simp
  next
    case (Inr x)
    with Cons have "k \<in> set ks" by auto
    with Cons have "collect f ks = Inl TypeError" by simp
    with Inr show ?thesis by simp
  qed
qed

lemma safeIndex_less: "0 < n \<Longrightarrow> safeIndex n i < n"
  by (simp add: safeIndex_def)

lemma newCorner_cong:
  assumes "length ls' = length ls"
    and "\<And>j. j < length ls \<Longrightarrow> outerSubPoints (ls' ! j) = outerSubPoints (ls ! j)
            \<and> innerSubPoints (ls' ! j) = innerSubPoints (ls ! j)"
    and "i < length ls"
  shows "newCorner op ip ls' i = newCorner op ip ls i"
proof -
  have n: "safeIndex (length ls) (i + 1) < length ls"
    using assms(3) by (intro safeIndex_less) auto
  show ?thesis
    using assms(2)[OF assms(3)] assms(2)[OF n] assms(1)
    by (simp add: newCorner_def Let_def)
qed

lemma fold_cornerStep:
  "k \<le> length ls \<Longrightarrow> fold (cornerStep op ip) [0 ..< k] ls = withCorners op ip ls k"
proof (induction k)
  case 0
  show ?case
    by (simp add: withCorners_def map_nth)
next
  case (Suc k)
  then have k: "k < length ls" by simp
  have ih: "fold (cornerStep op ip) [0 ..< k] ls = withCorners op ip ls k"
    using Suc by simp
  have len: "length (withCorners op ip ls k) = length ls"
    by (simp add: withCorners_def)
  have same: "\<And>j. j < length ls \<Longrightarrow>
      outerSubPoints (withCorners op ip ls k ! j) = outerSubPoints (ls ! j)
      \<and> innerSubPoints (withCorners op ip ls k ! j) = innerSubPoints (ls ! j)"
    by (simp add: withCorners_def)
  have nc: "newCorner op ip (withCorners op ip ls k) k = newCorner op ip ls k"
    by (rule newCorner_cong[OF len same k])
  have atk: "withCorners op ip ls k ! k = ls ! k"
    using k by (simp add: withCorners_def)
  have "cornerStep op ip k (withCorners op ip ls k) = withCorners op ip ls (Suc k)"
    unfolding cornerStep_def nc atk
    by (rule nth_equalityI) (auto simp: withCorners_def nth_list_update less_Suc_eq)
  then show ?case
    using ih by simp
qed

lemma calculateCorners_eq:
  "calculateCorners op ip ls =
     map (\<lambda>j. (ls ! j)\<lparr>corner := Some (newCorner op ip ls j)\<rparr>) [0 ..< length ls]"
  by (simp add: calculateCorners_def fold_cornerStep withCorners_def)

lemma fold_finPieceStep:
  "k \<le> length ls \<Longrightarrow> fold (finPieceStep c) [0 ..< k] (ls, []) = finsDone c ls k"
proof (induction k)
  case 0
  show ?case
    by (simp add: finsDone_def map_nth)
next
  case (Suc k)
  then have k: "k < length ls" by simp
  have ih: "fold (finPieceStep c) [0 ..< k] (ls, []) = finsDone c ls k"
    using Suc by simp
  have "finPieceStep c k (finsDone c ls k) = finsDone c ls (Suc k)"
    using k unfolding finPieceStep_def finsDone_def
    by (auto simp: Let_def nth_list_update less_Suc_eq intro!: nth_equalityI)
  then show ?case
    using ih by simp
qed

lemma calculateFinPieces_eq:
  "calculateFinPieces c ls =
     (map (\<lambda>l. l\<lparr>blocks := rev (blocks l)\<rparr>) ls, map (\<lambda>l. ring c (blocks l)) ls)"
proof -
  have "calculateFinPieces c ls = finsDone c ls (length ls)"
    by (simp add: calculateFinPieces_def fold_finPieceStep)
  also have "\<dots> = (map (\<lambda>l. l\<lparr>blocks := rev (blocks l)\<rparr>) ls, map (\<lambda>l. ring c (blocks l)) ls)"
    unfolding finsDone_def by (auto intro!: nth_equalityI)
  finally show ?thesis .
qed

lemma calculateReinforcers_eq:
  assumes "\<And>i. i < length ls \<Longrightarrow> corner (ls ! i) = Some (cn i)"
  shows "calculateReinforcers c ls =
     Inr (map (\<lambda>i. ring c (sliceLast2 (blocks (ls ! i)) @ [cn i]
              @ take 2 (blocks (ls ! safeIndex (length ls) (i + 1))))) [0 ..< length ls])"
  unfolding calculateReinforcers_def
  by (rule collect_Inr) (simp add: reinforcerGroup_def Let_def assms)

lemma calculateWalls_ok:
  assumes "length pts \<le> length ls"
  shows "calculateWalls c ls pts d =
     Inr (map (\<lambda>i. wallPoints c (Wall d (pts ! i) (lineAngle (ls ! i))
                 [pts ! i, pts ! safeIndex (length pts) (i + 1)])) [0 ..< length pts])"
  unfolding calculateWalls_def
  using assms by (intro collect_Inr) (simp add: wallAt_def)

lemma calculateWalls_fail:
  assumes "length ls < length pts"
  shows "calculateWalls c ls pts d = Inl TypeError"
  unfolding calculateWalls_def
  by (rule collect_Inl[where k = "length ls"]) (use assms in \<open>simp_all add: wallAt_def\<close>)

lemma length_calculateCorners: "length (calculateCorners op ip ls) = length ls"
  by (simp add: calculateCorners_eq)

lemma calculateCorners_nth:
  "i < length ls \<Longrightarrow>
     calculateCorners op ip ls ! i = (ls ! i)\<lparr>corner := Some (newCorner op ip ls i)\<rparr>"
  by (simp add: calculateCorners_eq)

text \<open>The result of the constructor when no wall pass throws, and its failure otherwise.\<close>

lemma newWren_ok:
  fixes c :: collab and raw :: "point list"
  defines "pts \<equiv> offset c raw 0"
    and "op \<equiv> offset c raw finWidth"
    and "ip \<equiv> offset c raw (- finWidth)"
  defines "ls1 \<equiv> calculateCorners op ip (calculateLines c pts)"
  defines "ls2 \<equiv> map (\<lambda>l. l\<lparr>blocks := rev (blocks l)\<rparr>) ls1"
  assumes inner: "length ip \<le> length pts" and outer: "length op \<le> length pts"
  shows "newWren c raw = Inr
     \<lparr> innerPoints = ip, outerPoints = op, points = pts,
       normalizedPoints =
         map (\<lambda>(x, y). (x - minX (bounds c raw), maxY (bounds c raw) - y)) pts,
       lines = ls2,
       reinforcers =
         map (\<lambda>i. ring c (sliceLast2 (blocks (ls1 ! i)) @ [newCorner op ip (calculateLines c pts) i]
                  @ take 2 (blocks (ls1 ! safeIndex (length ls1) (i + 1))))) [0 ..< length ls1],
       finPieces = map (\<lambda>l. ring c (blocks l)) ls1,
       outerWalls =
         map (\<lambda>i. wallPoints c (Wall 120 (op ! i) (lineAngle (ls2 ! i))
                [op ! i, op ! safeIndex (length op) (i + 1)])) [0 ..< length op],
       innerWalls =
         map (\<lambda>i. wallPoints c (Wall (- 120) (ip ! i) (lineAngle (ls2 ! i))
                [ip ! i, ip ! safeIndex (length ip) (i + 1)])) [0 ..< length ip] \<rparr>"
proof -
  have len1: "length ls1 = length pts"
    by (simp add: ls1_def length_calculateCorners length_calculateLines)
  have len2: "length ls2 = length pts"
    by (simp add: ls2_def len1)
  have cn: "\<And>i. i < length ls1 \<Longrightarrow>
      corner (ls1 ! i) = Some (newCorner op ip (calculateLines c pts) i)"
    by (simp add: ls1_def length_calculateCorners calculateCorners_nth)
  note r = calculateReinforcers_eq[of ls1 "newCorner op ip (calculateLines c pts)" c, OF cn]
  have f: "calculateFinPieces c ls1 = (ls2, map (\<lambda>l. ring c (blocks l)) ls1)"
    by (simp add: calculateFinPieces_eq ls2_def)
  have wi: "length ip \<le> length ls2" using inner len2 by simp
  have wo: "length op \<le> length ls2" using outer len2 by simp
  show ?thesis
    unfolding newWren_def Let_def
    unfolding pts_def[symmetric] op_def[symmetric] ip_def[symmetric]
    unfolding ls1_def[symmetric]
    by (simp add: r f calculateWalls_ok[OF wi] calculateWalls_ok[OF wo])
qed

lemma newWren_fail:
  assumes "length (offset c raw 0) < length (offset c raw (- finWidth))
         \<or> length (offset c raw 0) < length (offset c raw finWidth)"
  shows "newWren c raw = Inl TypeError"
proof -
  let ?pts = "offset c raw 0" and ?op = "offset c raw finWidth" and ?ip = "offset c raw (- finWidth)"
  let ?ls1 = "calculateCorners ?op ?ip (calculateLines c ?pts)"
  let ?ls2 = "map (\<lambda>l. l\<lparr>blocks := rev (blocks l)\<rparr>) ?ls1"
  have len2: "length ?ls2 = length ?pts"
    by (simp add: length_calculateCorners length_calculateLines)
  have cn: "\<And>i. i < length ?ls1 \<Longrightarrow>
      corner (?ls1 ! i) = Some (newCorner ?op ?ip (calculateLines c ?pts) i)"
    by (simp add: length_calculateCorners calculateCorners_nth)
  note r = calculateReinforcers_eq[of ?ls1 "newCorner ?op ?ip (calculateLines c ?pts)" c, OF cn]
  have f: "calculateFinPieces c ?ls1 = (?ls2, map (\<lambda>l. ring c (blocks l)) ?ls1)"
    by (simp add: calculateFinPieces_eq)
  show ?thesis
  proof (cases "length ?pts < length ?ip")
    case True
    then have "calculateWalls c ?ls2 ?ip (- 120) = Inl TypeError"
      by (intro calculateWalls_fail) (simp only: len2)
    then show ?thesis
      unfolding newWren_def Let_def by (simp add: r f)
  next
    case False
    then have wi: "length ?ip \<le> length ?ls2" by (simp only: len2)
    from False assms have "length ?pts < length ?op" by simp
    then have "calculateWalls c ?ls2 ?op 120 = Inl TypeError"
      by (intro calculateWalls_fail) (simp only: len2)
    then show ?thesis
      unfolding newWren_def Let_def by (simp add: r f calculateWalls_ok[OF wi])
  qed
qed

lemma stepDistances_bounds:
  "i0 \<le> i \<Longrightarrow> d \<in> set (stepDistances h i) \<Longrightarrow> i0 \<le> d \<and> d < h"
proof (induction h i rule: stepDistances.induct)
  case (1 h i)
  show ?case
  proof (cases "i < h")
    case True
    from "1.prems"(2) True have "d = i \<or> d \<in> set (stepDistances h (i + pointDistance * 2))"
      by (subst (asm) stepDistances.simps) simp
    then show ?thesis
    proof
      assume "d = i"
      with True "1.prems"(1) show ?thesis by simp
    next
      assume "d \<in> set (stepDistances h (i + pointDistance * 2))"
      moreover have "i0 \<le> i + pointDistance * 2"
        using "1.prems"(1) by (simp add: pointDistance_def)
      ultimately show ?thesis
        using "1.IH"[OF True] by simp
    qed
  next
    case False
    with "1.prems"(2) show ?thesis
      by (subst (asm) stepDistances.simps) simp
  qed
qed

lemma stepDistances_empty: "h \<le> i \<Longrightarrow> stepDistances h i = []"
  by (subst stepDistances.simps) simp

lemma stepDistances_50: "stepDistances 50 pointDistance = [15, 45]"
  by (simp add: stepDistances.simps pointDistance_def)

lemma subPoints_calculateLine:
  "subPoints (calculateLine c (a, b)) =
     map (\<lambda>d. pointOnLine c d a b) (stepDistances (distance c a b / 2) pointDistance)
     @ rev (map (\<lambda>d. pointOnLine c d b a) (stepDistances (distance c a b / 2) pointDistance))"
  by (simp add: calculateLine_def Let_def halfPoints_stepDistances)

lemma lengths_calculateLine:
  "length (innerSubPoints (calculateLine c se)) = length (subPoints (calculateLine c se))"
  "length (outerSubPoints (calculateLine c se)) = length (subPoints (calculateLine c se))"
  "length (blocks (calculateLine c se)) = length (subPoints (calculateLine c se)) - 1"
  by (cases se; simp add: calculateLine_def Let_def makeBlocks_def)+

lemma sample_simps:
  "offset sample = boxOffset" "bounds sample = boxBounds" "distance sample = euclidean"
  "angle sample = direction" "pointOnLine sample = along"
  "rotateAroundPoint sample = rotateAbout" "tileOuterPoints sample = shownOuter"
  "tileInnerPoints sample = shownInner" "wallPoints sample = strip"
  by (simp_all add: sample_def)

lemma boxOffset_square:
  "boxOffset square d = [(- d, - d), (100 + d, - d), (100 + d, 100 + d), (- d, 100 + d)]"
  by (simp add: boxOffset_def square_def boxCorners_def)

lemma euclidean_axis:
  "euclidean (x, y) (x', y) = \<bar>x' - x\<bar>" "euclidean (x, y) (x, y') = \<bar>y' - y\<bar>"
  by (simp_all add: euclidean_def)

lemma square_line0:
  "calculateLines sample square ! 0 = calculateLine sample ((0, 0), (100, 0))"
  by (simp add: calculateLines_nth square_def)

lemma square_sub0:
  "subPoints (calculateLine sample ((0, 0), (100, 0))) = [(15, 0), (45, 0), (55, 0), (85, 0)]"
  by (simp add: subPoints_calculateLine sample_simps euclidean_axis stepDistances_50 along_def)

lemma square_len0: "lineLength (calculateLine sample ((0, 0), (100, 0))) = 100"
  by (simp add: calculateLine_def Let_def sample_simps euclidean_axis)

lemma triangle_edges:
  "shortTriangle ! 0 = (0, 0)" "shortTriangle ! ((0 + 1) mod length shortTriangle) = (10, 0)"
  "shortTriangle ! 1 = (10, 0)" "shortTriangle ! ((1 + 1) mod length shortTriangle) = (0, 100)"
  "length shortTriangle = 3"
  by (simp_all add: shortTriangle_def)

lemma newWren_Inr_lengths:
  assumes "newWren c raw = Inr w"
  shows "length (offset c raw (- finWidth)) \<le> length (offset c raw 0)"
    and "length (offset c raw finWidth) \<le> length (offset c raw 0)"
proof -
  have "\<not> (length (offset c raw 0) < length (offset c raw (- finWidth))
         \<or> length (offset c raw 0) < length (offset c raw finWidth))"
  proof
    assume "length (offset c raw 0) < length (offset c raw (- finWidth))
         \<or> length (offset c raw 0) < length (offset c raw finWidth)"
    then have "newWren c raw = Inl TypeError" by (rule newWren_fail)
    with assms show False by simp
  qed
  then show "length (offset c raw (- finWidth)) \<le> length (offset c raw 0)"
    and "length (offset c raw finWidth) \<le> length (offset c raw 0)"
    by simp_all
qed

lemma newWren_fields:
  assumes "newWren c raw = Inr w"
  shows "points w = offset c raw 0"
    and "outerPoints w = offset c raw finWidth"
    and "innerPoints w = offset c raw (- finWidth)"
    and "normalizedPoints w =
           map (\<lambda>(x, y). (x - minX (bounds c raw), maxY (bounds c raw) - y)) (offset c raw 0)"
    and "lines w = map (\<lambda>l. l\<lparr>blocks := rev (blocks l)\<rparr>)
           (calculateCorners (offset c raw finWidth) (offset c raw (- finWidth))
              (calculateLines c (offset c raw 0)))"
    and "finPieces w = map (\<lambda>l. ring c (blocks l))
           (calculateCorners (offset c raw finWidth) (offset c raw (- finWidth))
              (calculateLines c (offset c raw 0)))"
    and "length (outerWalls w) = length (offset c raw finWidth)"
    and "length (innerWalls w) = length (offset c raw (- finWidth))"
    and "calculateReinforcers c
           (calculateCorners (offset c raw finWidth) (offset c raw (- finWidth))
              (calculateLines c (offset c raw 0))) = Inr (reinforcers w)"
proof -
  note ok = newWren_ok[OF newWren_Inr_lengths[OF assms]]
  from ok assms show "points w = offset c raw 0" by auto
  from ok assms show "outerPoints w = offset c raw finWidth" by auto
  from ok assms show "innerPoints w = offset c raw (- finWidth)" by auto
  from ok assms show "normalizedPoints w =
      map (\<lambda>(x, y). (x - minX (bounds c raw), maxY (bounds c raw) - y)) (offset c raw 0)"
    by auto
  from ok assms show "lines w = map (\<lambda>l. l\<lparr>blocks := rev (blocks l)\<rparr>)
           (calculateCorners (offset c raw finWidth) (offset c raw (- finWidth))
              (calculateLines c (offset c raw 0)))" by auto
  from ok assms show "finPieces w = map (\<lambda>l. ring c (blocks l))
           (calculateCorners (offset c raw finWidth) (offset c raw (- finWidth))
              (calculateLines c (offset c raw 0)))" by auto
  from ok assms show "length (outerWalls w) = length (offset c raw finWidth)" by auto
  from ok assms show "length (innerWalls w) = length (offset c raw (- finWidth))" by auto
  let ?ls1 = "calculateCorners (offset c raw finWidth) (offset c raw (- finWidth))
              (calculateLines c (offset c raw 0))"
  have cn: "\<And>i. i < length ?ls1 \<Longrightarrow> corner (?ls1 ! i) =
      Some (newCorner (offset c raw finWidth) (offset c raw (- finWidth))
              (calculateLines c (offset c raw 0)) i)"
    by (simp add: length_calculateCorners calculateCorners_nth)
  note r = calculateReinforcers_eq[of ?ls1 _ c, OF cn]
  from ok assms r show "calculateReinforcers c ?ls1 = Inr (reinforcers w)"
    by auto
qed

lemma sample_square_returns: "\<exists>w. newWren sample square = Inr w"
proof -
  have "length (offset sample square (- finWidth)) \<le> length (offset sample square 0)"
    and "length (offset sample square finWidth) \<le> length (offset sample square 0)"
    by (simp_all add: sample_simps boxOffset_square)
  from newWren_ok[OF this] show ?thesis by blast
qed




lemma blocks_calculateCorners:
  "i < length ls \<Longrightarrow> blocks (calculateCorners op ip ls ! i) = blocks (ls ! i)"
  by (simp add: calculateCorners_nth)

lemma boxOffset_square0: "boxOffset square 0 = square"
  by (simp add: boxOffset_def square_def boxCorners_def)

lemma direction_east: "0 < x' - x \<Longrightarrow> direction (x, y) (x', y) = 0"
  by (simp add: direction_def Let_def)

lemma square_blocks0:
  "blocks (calculateLine sample ((0, 0), (100, 0))) =
     [Block 0 (15, 0) (15, 25 / 2) (45, 25 / 2) (45, - 25 / 2) (15, - 25 / 2),
      Block 0 (45, 0) (45, 25 / 2) (55, 25 / 2) (55, - 25 / 2) (45, - 25 / 2),
      Block 0 (55, 0) (55, 25 / 2) (85, 25 / 2) (85, - 25 / 2) (55, - 25 / 2)]"
proof -
  have h: "halfPoints sample (0, 0) (100, 0) 50 pointDistance = [(15, 0), (45, 0)]"
    "halfPoints sample (100, 0) (0, 0) 50 pointDistance = [(85, 0), (55, 0)]"
    by (simp_all add: halfPoints_stepDistances stepDistances_50 sample_simps along_def euclidean_axis)
  have u: "[0 ..< 3] = [0, 1, 2]"
    by (simp add: upt_rec)
  show ?thesis
    by (simp add: calculateLine_def Let_def sample_simps euclidean_axis direction_east h
        makeBlocks_def u rotateAbout_def finWidth_def)
qed

lemma bevelSample_simps: "offset bevelSample = bevelOffset"
  by (simp add: bevelSample_def sample_def)

lemma bevelOffset_square:
  "length (bevelOffset square 0) = 4" "length (bevelOffset square (- finWidth)) = 4"
  "length (bevelOffset square finWidth) = 8"
  by (simp_all add: bevelOffset_def boxOffset_def boxCorners_def finWidth_def square_def Let_def)

lemma upt3: "[0 ..< 3] = [0, 1, 2]"
  by (simp add: upt_rec)

lemma direction_axis:
  "0 < y' - y \<Longrightarrow> direction (x, y) (x, y') = pi / 2"
  "y' - y < 0 \<Longrightarrow> direction (x, y) (x, y') = - (pi / 2)"
  by (simp_all add: direction_def Let_def)

lemma square_line1:
  "calculateLines sample square ! 1 = calculateLine sample ((100, 0), (100, 100))"
  by (simp add: calculateLines_nth square_def)

lemma square_line3:
  "calculateLines sample square ! 3 = calculateLine sample ((0, 100), (0, 0))"
  by (simp add: calculateLines_nth square_def)

lemma bottom_edge:
  "calculateLine sample ((0, 0), (100, 0)) =
     \<lparr> subPoints = [(15, 0), (45, 0), (55, 0), (85, 0)],
       outerSubPoints = [(15, - 25 / 2), (45, - 25 / 2), (55, - 25 / 2), (85, - 25 / 2)],
       innerSubPoints = [(15, 25 / 2), (45, 25 / 2), (55, 25 / 2), (85, 25 / 2)],
       lineAngle = 0, lineLength = 100,
       blocks =
         [Block 0 (15, 0) (15, 25 / 2) (45, 25 / 2) (45, - 25 / 2) (15, - 25 / 2),
          Block 0 (45, 0) (45, 25 / 2) (55, 25 / 2) (55, - 25 / 2) (45, - 25 / 2),
          Block 0 (55, 0) (55, 25 / 2) (85, 25 / 2) (85, - 25 / 2) (55, - 25 / 2)],
       corner = None \<rparr>"
proof -
  have h: "halfPoints sample (0, 0) (100, 0) 50 pointDistance = [(15, 0), (45, 0)]"
    "halfPoints sample (100, 0) (0, 0) 50 pointDistance = [(85, 0), (55, 0)]"
    by (simp_all add: halfPoints_stepDistances stepDistances_50 sample_simps along_def euclidean_axis)
  show ?thesis
    by (simp add: calculateLine_def Let_def sample_simps euclidean_axis direction_east h
        makeBlocks_def upt3 rotateAbout_def finWidth_def)
qed

lemma right_edge:
  "calculateLine sample ((100, 0), (100, 100)) =
     \<lparr> subPoints = [(100, 15), (100, 45), (100, 55), (100, 85)],
       outerSubPoints = [(225 / 2, 15), (225 / 2, 45), (225 / 2, 55), (225 / 2, 85)],
       innerSubPoints = [(175 / 2, 15), (175 / 2, 45), (175 / 2, 55), (175 / 2, 85)],
       lineAngle = pi / 2, lineLength = 100,
       blocks =
         [Block (pi / 2) (100, 15) (175 / 2, 15) (175 / 2, 45) (225 / 2, 45) (225 / 2, 15),
          Block (pi / 2) (100, 45) (175 / 2, 45) (175 / 2, 55) (225 / 2, 55) (225 / 2, 45),
          Block (pi / 2) (100, 55) (175 / 2, 55) (175 / 2, 85) (225 / 2, 85) (225 / 2, 55)],
       corner = None \<rparr>"
proof -
  have h: "halfPoints sample (100, 0) (100, 100) 50 pointDistance = [(100, 15), (100, 45)]"
    "halfPoints sample (100, 100) (100, 0) 50 pointDistance = [(100, 85), (100, 55)]"
    by (simp_all add: halfPoints_stepDistances stepDistances_50 sample_simps along_def euclidean_axis)
  show ?thesis
    by (simp add: calculateLine_def Let_def sample_simps euclidean_axis direction_axis h
        makeBlocks_def upt3 rotateAbout_def finWidth_def)
qed

lemma left_edge:
  "calculateLine sample ((0, 100), (0, 0)) =
     \<lparr> subPoints = [(0, 85), (0, 55), (0, 45), (0, 15)],
       outerSubPoints = [(- 25 / 2, 85), (- 25 / 2, 55), (- 25 / 2, 45), (- 25 / 2, 15)],
       innerSubPoints = [(25 / 2, 85), (25 / 2, 55), (25 / 2, 45), (25 / 2, 15)],
       lineAngle = - (pi / 2), lineLength = 100,
       blocks =
         [Block (- (pi / 2)) (0, 85) (25 / 2, 85) (25 / 2, 55) (- 25 / 2, 55) (- 25 / 2, 85),
          Block (- (pi / 2)) (0, 55) (25 / 2, 55) (25 / 2, 45) (- 25 / 2, 45) (- 25 / 2, 55),
          Block (- (pi / 2)) (0, 45) (25 / 2, 45) (25 / 2, 15) (- 25 / 2, 15) (- 25 / 2, 45)],
       corner = None \<rparr>"
proof -
  have h: "halfPoints sample (0, 100) (0, 0) 50 pointDistance = [(0, 85), (0, 55)]"
    "halfPoints sample (0, 0) (0, 100) 50 pointDistance = [(0, 15), (0, 45)]"
    by (simp_all add: halfPoints_stepDistances stepDistances_50 sample_simps along_def euclidean_axis)
  show ?thesis
    by (simp add: calculateLine_def Let_def sample_simps euclidean_axis direction_axis h
        makeBlocks_def upt3 rotateAbout_def finWidth_def)
qed

lemma jsIndex_last:
  "jsIndex xs (int (length xs) - 1) = (if xs = [] then None else Some (last xs))"
proof (cases "xs = []")
  case True
  then show ?thesis by (simp add: jsIndex_def)
next
  case False
  then have "0 < length xs" by simp
  then have "nat (int (length xs) - 1) = length xs - 1" by simp
  with False show ?thesis
    by (simp add: jsIndex_def last_conv_nth)
qed

lemma jsIndex_first: "jsIndex xs 0 = (if xs = [] then None else Some (hd xs))"
  by (cases xs) (simp_all add: jsIndex_def)

lemma jsIndex_nat: "jsIndex xs (int k) = (if k < length xs then Some (xs ! k) else None)"
  by (simp add: jsIndex_def)

lemma calculateLines_nth_lengths:
  "i < length pts \<Longrightarrow>
     length (outerSubPoints (calculateLines c pts ! i))
       = length (innerSubPoints (calculateLines c pts ! i))"
  by (simp add: calculateLines_nth lengths_calculateLine)

lemma length_square: "length square = 4"
  by (simp add: square_def)

lemma square_corner0:
  "newCorner (boxOffset square finWidth) (boxOffset square (- finWidth))
       (calculateLines sample square) 0
     = Corner (Some (85, - 25 / 2)) (Some (225 / 2, - 25 / 2)) (Some (225 / 2, 15))
         (Some (175 / 2, 15)) (Some (175 / 2, 25 / 2)) (Some (85, 25 / 2))"
proof -
  have n: "safeIndex (length (calculateLines sample square)) (0 + 1) = 1"
    by (simp add: safeIndex_def length_calculateLines length_square)
  show ?thesis
    unfolding newCorner_def Let_def n square_line0 square_line1 bottom_edge right_edge
    by (simp add: boxOffset_square finWidth_def jsIndex_def)
qed

lemma final_line:
  assumes "newWren c raw = Inr w" and "i < length (points w)"
  shows "lines w ! i =
     (calculateLine c (points w ! i, points w ! ((i + 1) mod length (points w))))
       \<lparr> blocks := rev (blocks (calculateLine c
            (points w ! i, points w ! ((i + 1) mod length (points w))))),
         corner := Some (newCorner (outerPoints w) (innerPoints w)
            (calculateLines c (points w)) i) \<rparr>"
proof -
  note f = newWren_fields[OF assms(1)]
  have i: "i < length (calculateLines c (points w))"
    using assms(2) by (simp add: length_calculateLines)
  have "lines w ! i = (calculateCorners (outerPoints w) (innerPoints w)
      (calculateLines c (points w)) ! i)\<lparr>blocks := rev (blocks (calculateCorners
        (outerPoints w) (innerPoints w) (calculateLines c (points w)) ! i))\<rparr>"
    using i by (simp add: f(5) f(1-3)[symmetric] length_calculateCorners)
  then show ?thesis
    using i assms(2) by (simp add: calculateCorners_nth calculateLines_nth)
qed

lemma less_4_cases: "i < 4 \<Longrightarrow> i = 0 \<or> i = 1 \<or> i = 2 \<or> i = (3::nat)"
  by arith

lemma sample_square_edges:
  "\<forall>i < 4. distance sample (offset sample square 0 ! i)
      (offset sample square 0 ! ((i + 1) mod 4)) = 100"
proof (intro allI impI)
  fix i :: nat
  assume "i < 4"
  then have "i = 0 \<or> i = 1 \<or> i = 2 \<or> i = 3"
    by (rule less_4_cases)
  moreover have "offset sample square 0 = [(0, 0), (100, 0), (100, 100), (0, 100)]"
    by (simp add: sample_simps boxOffset_square0) (simp add: square_def)
  ultimately show "distance sample (offset sample square 0 ! i)
      (offset sample square 0 ! ((i + 1) mod 4)) = 100"
    by (auto simp: sample_simps(3) euclidean_axis)
qed

lemma sample_square_line0:
  assumes "newWren sample square = Inr w"
  shows "subPoints (lines w ! 0) = [(15, 0), (45, 0), (55, 0), (85, 0)]"
    and "lineLength (lines w ! 0) = 100"
proof -
  have p: "points w = square"
    using newWren_fields(1)[OF assms] by (simp add: sample_simps boxOffset_square0)
  have h: "0 < length (points w)"
    by (simp add: p length_square)
  have e: "points w ! 0 = (0, 0)" "points w ! ((0 + 1) mod length (points w)) = (100, 0)"
    by (simp_all add: p square_def)
  note fl = final_line[OF assms h, unfolded e bottom_edge]
  show "subPoints (lines w ! 0) = [(15, 0), (45, 0), (55, 0), (85, 0)]"
    by (simp add: fl)
  show "lineLength (lines w ! 0) = 100"
    by (simp add: fl)
qed

section \<open>The claims\<close>

text \<open>
  C1, amended. For the square \<open>[[0,0],[100,0],[100,100],[0,100]]\<close> with \<open>pointDistance\<close>
  15 and \<open>finWidth\<close> 12.5, when the offsetter returns four points for each of the deltas
  0, 12.5 and -12.5 and the working edges have length 100, the constructor produces 4
  edges; each half of an edge's \<open>subPoints\<close> holds 2 points before mirroring, at the
  distances 15 and 45 (the loop steps by twice \<open>pointDistance\<close>), 4 sub-points in all; there
  are 4 Corners, 4 reinforcer loops, 4 fin-piece loops, and 4 inner and 4 outer walls.
\<close>

theorem C1_square:
  fixes c :: collab
  assumes working: "length (offset c square 0) = 4"
    and edges: "\<forall>i < 4. distance c (offset c square 0 ! i)
                  (offset c square 0 ! ((i + 1) mod 4)) = 100"
    and outer: "length (offset c square finWidth) = 4"
    and inner: "length (offset c square (- finWidth)) = 4"
  shows "\<exists>w. newWren c square = Inr w
     \<and> length (lines w) = 4
     \<and> (\<forall>i < 4.
          halfPoints c (points w ! i) (points w ! ((i + 1) mod 4))
              (lineLength (lines w ! i) / 2) pointDistance
            = [pointOnLine c 15 (points w ! i) (points w ! ((i + 1) mod 4)),
               pointOnLine c 45 (points w ! i) (points w ! ((i + 1) mod 4))]
          \<and> halfPoints c (points w ! ((i + 1) mod 4)) (points w ! i)
              (lineLength (lines w ! i) / 2) pointDistance
            = [pointOnLine c 15 (points w ! ((i + 1) mod 4)) (points w ! i),
               pointOnLine c 45 (points w ! ((i + 1) mod 4)) (points w ! i)]
          \<and> subPoints (lines w ! i)
            = [pointOnLine c 15 (points w ! i) (points w ! ((i + 1) mod 4)),
               pointOnLine c 45 (points w ! i) (points w ! ((i + 1) mod 4)),
               pointOnLine c 45 (points w ! ((i + 1) mod 4)) (points w ! i),
               pointOnLine c 15 (points w ! ((i + 1) mod 4)) (points w ! i)]
          \<and> (\<exists>p1 p2 p3 p4 p5 p6. corner (lines w ! i) = Some (Corner p1 p2 p3 p4 p5 p6)))
     \<and> length (reinforcers w) = 4
     \<and> length (finPieces w) = 4
     \<and> length (innerWalls w) = 4
     \<and> length (outerWalls w) = 4"
proof -
  have "length (offset c square (- finWidth)) \<le> length (offset c square 0)"
    and "length (offset c square finWidth) \<le> length (offset c square 0)"
    using working outer inner by simp_all
  from newWren_ok[OF this] obtain w where w: "newWren c square = Inr w"
    by blast
  note f = newWren_fields[OF w]
  have n: "length (points w) = 4"
    using working by (simp add: f(1))
  have l: "length (lines w) = 4"
    using working by (simp add: f(5) length_calculateCorners length_calculateLines)
  have r: "length (reinforcers w) = 4"
  proof -
    let ?ls1 = "calculateCorners (offset c square finWidth) (offset c square (- finWidth))
       (calculateLines c (offset c square 0))"
    have cn: "\<And>i. i < length ?ls1 \<Longrightarrow> corner (?ls1 ! i) =
        Some (newCorner (offset c square finWidth) (offset c square (- finWidth))
              (calculateLines c (offset c square 0)) i)"
      by (simp add: length_calculateCorners calculateCorners_nth)
    from calculateReinforcers_eq[of ?ls1 _ c, OF cn] f(9)
    have "length (reinforcers w) = length ?ls1"
      by auto
    then show ?thesis
      using working by (simp add: length_calculateCorners length_calculateLines)
  qed
  have p: "length (finPieces w) = 4"
    using working by (simp add: f(6) length_calculateCorners length_calculateLines)
  have iw: "length (innerWalls w) = 4" and ow: "length (outerWalls w) = 4"
    using inner outer by (simp_all add: f(7,8))
  have e: "\<forall>i < 4.
          halfPoints c (points w ! i) (points w ! ((i + 1) mod 4))
              (lineLength (lines w ! i) / 2) pointDistance
            = [pointOnLine c 15 (points w ! i) (points w ! ((i + 1) mod 4)),
               pointOnLine c 45 (points w ! i) (points w ! ((i + 1) mod 4))]
          \<and> halfPoints c (points w ! ((i + 1) mod 4)) (points w ! i)
              (lineLength (lines w ! i) / 2) pointDistance
            = [pointOnLine c 15 (points w ! ((i + 1) mod 4)) (points w ! i),
               pointOnLine c 45 (points w ! ((i + 1) mod 4)) (points w ! i)]
          \<and> subPoints (lines w ! i)
            = [pointOnLine c 15 (points w ! i) (points w ! ((i + 1) mod 4)),
               pointOnLine c 45 (points w ! i) (points w ! ((i + 1) mod 4)),
               pointOnLine c 45 (points w ! ((i + 1) mod 4)) (points w ! i),
               pointOnLine c 15 (points w ! ((i + 1) mod 4)) (points w ! i)]
          \<and> (\<exists>p1 p2 p3 p4 p5 p6. corner (lines w ! i) = Some (Corner p1 p2 p3 p4 p5 p6))"
  proof (intro allI impI)
    fix i :: nat
    assume i: "i < 4"
    let ?a = "points w ! i" and ?b = "points w ! ((i + 1) mod 4)"
    have fl: "lines w ! i = (calculateLine c (?a, ?b))
        \<lparr> blocks := rev (blocks (calculateLine c (?a, ?b))),
          corner := Some (newCorner (outerPoints w) (innerPoints w)
            (calculateLines c (points w)) i) \<rparr>"
      using final_line[OF w, of i] i by (simp only: n)
    have d: "distance c ?a ?b = 100"
      using edges i by (simp add: f(1))
    have len: "lineLength (lines w ! i) = 100"
      using d by (simp add: fl calculateLine_def Let_def)
    have h1: "halfPoints c ?a ?b (lineLength (lines w ! i) / 2) pointDistance
        = [pointOnLine c 15 ?a ?b, pointOnLine c 45 ?a ?b]"
      and h2: "halfPoints c ?b ?a (lineLength (lines w ! i) / 2) pointDistance
        = [pointOnLine c 15 ?b ?a, pointOnLine c 45 ?b ?a]"
      unfolding len by (simp_all add: halfPoints_stepDistances stepDistances_50)
    have s: "subPoints (lines w ! i)
        = [pointOnLine c 15 ?a ?b, pointOnLine c 45 ?a ?b,
           pointOnLine c 45 ?b ?a, pointOnLine c 15 ?b ?a]"
      using d by (simp add: fl subPoints_calculateLine stepDistances_50)
    have k: "\<exists>p1 p2 p3 p4 p5 p6. corner (lines w ! i) = Some (Corner p1 p2 p3 p4 p5 p6)"
      by (simp add: fl newCorner_def Let_def)
    from h1 h2 s k show "halfPoints c ?a ?b (lineLength (lines w ! i) / 2) pointDistance
            = [pointOnLine c 15 ?a ?b, pointOnLine c 45 ?a ?b]
          \<and> halfPoints c ?b ?a (lineLength (lines w ! i) / 2) pointDistance
            = [pointOnLine c 15 ?b ?a, pointOnLine c 45 ?b ?a]
          \<and> subPoints (lines w ! i)
            = [pointOnLine c 15 ?a ?b, pointOnLine c 45 ?a ?b,
               pointOnLine c 45 ?b ?a, pointOnLine c 15 ?b ?a]
          \<and> (\<exists>p1 p2 p3 p4 p5 p6. corner (lines w ! i) = Some (Corner p1 p2 p3 p4 p5 p6))"
      by blast
  qed
  from w l e r p iw ow show ?thesis
    by blast
qed

text \<open>With the sample collaborators, whose box offsetter keeps the square.\<close>

theorem C1_square_witness:
  "length (offset sample square 0) = 4
   \<and> distance sample (0, 0) (100, 0) = 100
   \<and> length (offset sample square finWidth) = 4
   \<and> length (offset sample square (- finWidth)) = 4
   \<and> (\<exists>w. newWren sample square = Inr w
        \<and> length (lines w) = 4
        \<and> subPoints (lines w ! 0) = [(15, 0), (45, 0), (55, 0), (85, 0)]
        \<and> length (reinforcers w) = 4
        \<and> length (finPieces w) = 4
        \<and> length (innerWalls w) = 4
        \<and> length (outerWalls w) = 4)"
proof -
  have h1: "length (offset sample square 0) = 4"
    and h3: "length (offset sample square finWidth) = 4"
    and h4: "length (offset sample square (- finWidth)) = 4"
    by (simp_all add: sample_simps boxOffset_square)
  have d: "distance sample (0, 0) (100, 0) = 100"
    by (simp add: sample_simps euclidean_axis)
  from C1_square[OF h1 sample_square_edges h3 h4] obtain w where
    w: "newWren sample square = Inr w" and
    c: "length (lines w) = 4" "length (reinforcers w) = 4" "length (finPieces w) = 4"
       "length (innerWalls w) = 4" "length (outerWalls w) = 4"
    by blast
  from sample_square_line0(1)[OF w] w c h1 h3 h4 d show ?thesis
    by blast
qed

text \<open>
  C1 as stated has \<open>floor(50/15) = 3\<close> points per half. On the bottom edge of the square
  each half has 2 points and \<open>subPoints\<close> has 4, not 6.
\<close>

theorem C1_three_per_half_counterexample:
  "newWren sample square = Inr (projr (newWren sample square))
   \<and> length (halfPoints sample (0, 0) (100, 0)
        (lineLength (lines (projr (newWren sample square)) ! 0) / 2) pointDistance) \<noteq> 3
   \<and> length (subPoints (lines (projr (newWren sample square)) ! 0)) \<noteq> 3 + 3"
proof -
  from sample_square_returns obtain w where w: "newWren sample square = Inr w" ..
  have h: "halfPoints sample (0, 0) (100, 0) 50 pointDistance = [(15, 0), (45, 0)]"
    by (simp add: halfPoints_stepDistances stepDistances_50 sample_simps along_def euclidean_axis)
  show ?thesis
    unfolding w by (simp add: sample_square_line0[OF w] h)
qed

text \<open>
  C2. For every edge produced by \<open>calculateLines\<close>, \<open>subPoints\<close> is the first half, generated
  stepping from the start toward the midpoint, followed by the reversal of the second half,
  generated in the same way from the end. Both halves use the same list \<open>ds\<close> of distances,
  so the distances from the start of the first half and the distances from the end of the
  second half are the same multiset, and every distance is below half the edge length: no
  sub-point is generated at or past the midpoint from either end.
\<close>

theorem C2_mirrored_halves:
  fixes c :: collab
  assumes "i < length pts"
  defines "a \<equiv> pts ! i" and "b \<equiv> pts ! ((i + 1) mod length pts)"
  defines "l \<equiv> calculateLines c pts ! i"
  defines "ds \<equiv> stepDistances (lineLength l / 2) pointDistance"
  shows "lineLength l = distance c a b
     \<and> subPoints l = halfPoints c a b (lineLength l / 2) pointDistance
                     @ rev (halfPoints c b a (lineLength l / 2) pointDistance)
     \<and> halfPoints c a b (lineLength l / 2) pointDistance = map (\<lambda>d. pointOnLine c d a b) ds
     \<and> halfPoints c b a (lineLength l / 2) pointDistance = map (\<lambda>d. pointOnLine c d b a) ds
     \<and> subPoints l = map (\<lambda>d. pointOnLine c d a b) ds @ map (\<lambda>d. pointOnLine c d b a) (rev ds)
     \<and> mset (rev ds) = mset ds
     \<and> (\<forall>d \<in> set ds. pointDistance \<le> d \<and> d < lineLength l / 2)"
proof -
  have l: "l = calculateLine c (a, b)"
    unfolding l_def a_def b_def using assms(1) by (rule calculateLines_nth)
  have len: "lineLength l = distance c a b"
    unfolding l by (simp add: calculateLine_def Let_def)
  have sub: "subPoints l = halfPoints c a b (lineLength l / 2) pointDistance
                     @ rev (halfPoints c b a (lineLength l / 2) pointDistance)"
    unfolding len unfolding l by (simp add: calculateLine_def Let_def)
  have h1: "halfPoints c a b (lineLength l / 2) pointDistance = map (\<lambda>d. pointOnLine c d a b) ds"
    unfolding ds_def by (rule halfPoints_stepDistances)
  have h2: "halfPoints c b a (lineLength l / 2) pointDistance = map (\<lambda>d. pointOnLine c d b a) ds"
    unfolding ds_def by (rule halfPoints_stepDistances)
  have sub': "subPoints l =
      map (\<lambda>d. pointOnLine c d a b) ds @ map (\<lambda>d. pointOnLine c d b a) (rev ds)"
    unfolding sub h1 h2 by (simp add: rev_map)
  have bnd: "\<forall>d \<in> set ds. pointDistance \<le> d \<and> d < lineLength l / 2"
    unfolding ds_def using stepDistances_bounds[of pointDistance pointDistance] by blast
  from len sub h1 h2 sub' bnd show ?thesis by simp
qed

text \<open>On the edge from \<open>(0, 0)\<close> to \<open>(100, 0)\<close> of the square the distances are 15 and 45.\<close>

theorem C2_mirrored_halves_witness:
  "(0::nat) < length square
   \<and> lineLength (calculateLines sample square ! 0) = 100
   \<and> stepDistances (100 / 2) pointDistance = [15, 45]
   \<and> subPoints (calculateLines sample square ! 0)
       = map (\<lambda>d. pointOnLine sample d (0, 0) (100, 0)) [15, 45]
         @ map (\<lambda>d. pointOnLine sample d (100, 0) (0, 0)) [45, 15]
   \<and> pointDistance \<le> 15 \<and> (15::real) < 100 / 2
   \<and> pointDistance \<le> 45 \<and> (45::real) < 100 / 2"
proof -
  have h: "(0::nat) < length square"
    by (simp add: square_def)
  have e: "square ! 0 = (0, 0)" "square ! ((0 + 1) mod length square) = (100, 0)"
    by (simp_all add: square_def)
  have n: "lineLength (calculateLines sample square ! 0) = 100"
    by (simp add: square_line0 square_len0)
  have s: "stepDistances (100 / 2) pointDistance = [15, 45]"
    using stepDistances_50 by simp
  from C2_mirrored_halves[OF h, of sample] h n s show ?thesis
    unfolding e n s by simp
qed

text \<open>
  C3. For every input polygon and every edge produced by \<open>calculateLines\<close>, the lists
  \<open>innerSubPoints\<close>, \<open>outerSubPoints\<close> and \<open>subPoints\<close> have the same length, and the
  number of blocks is \<open>max(subPoints.length - 1, 0)\<close>.
\<close>

theorem C3_lengths:
  "\<forall>l \<in> set (calculateLines c pts).
     length (innerSubPoints l) = length (subPoints l)
     \<and> length (outerSubPoints l) = length (subPoints l)
     \<and> int (length (blocks l)) = max (int (length (subPoints l)) - 1) 0"
proof
  fix l
  assume "l \<in> set (calculateLines c pts)"
  then obtain se where l: "l = calculateLine c se"
    by (auto simp: calculateLines_def)
  show "length (innerSubPoints l) = length (subPoints l)
     \<and> length (outerSubPoints l) = length (subPoints l)
     \<and> int (length (blocks l)) = max (int (length (subPoints l)) - 1) 0"
    unfolding l by (simp add: lengths_calculateLine)
qed

text \<open>On the square: the edge from \<open>(0, 0)\<close> to \<open>(100, 0)\<close> has 4 sub-points and 3 blocks.\<close>

theorem C3_lengths_witness:
  "calculateLines sample square ! 0 \<in> set (calculateLines sample square)
   \<and> length (subPoints (calculateLines sample square ! 0)) = 4
   \<and> length (innerSubPoints (calculateLines sample square ! 0)) = 4
   \<and> length (outerSubPoints (calculateLines sample square ! 0)) = 4
   \<and> length (blocks (calculateLines sample square ! 0)) = 3"
proof -
  have m: "calculateLines sample square ! 0 \<in> set (calculateLines sample square)"
    by (rule nth_mem) (simp add: length_calculateLines square_def)
  have n: "length (subPoints (calculateLines sample square ! 0)) = 4"
    by (simp add: square_line0 square_sub0)
  from C3_lengths[of sample square] m n show ?thesis
    by auto
qed

text \<open>
  C4. For every edge \<open>i\<close> and its cyclic successor, \<open>calculateCorners\<close> builds a Corner
  from these six points in this order: the last outer sub-point of edge \<open>i\<close>, the
  outer-offset point at the successor's index, the first outer sub-point of the successor,
  the first inner sub-point of the successor, the inner-offset point at the successor's
  index, the last inner sub-point of edge \<open>i\<close> (a point that does not exist is passed as
  \<open>undefined\<close>). The Corner is stored in edge \<open>i\<close>, and afterwards every edge has a Corner.
\<close>

theorem C4_corner:
  fixes c :: collab and outerPts innerPts :: "point list"
  assumes "i < length pts"
  defines "ls \<equiv> calculateLines c pts"
  defines "nextI \<equiv> (i + 1) mod length pts"
  defines "ls' \<equiv> calculateCorners outerPts innerPts ls"
  shows "length ls' = length pts
     \<and> ls' ! i = (ls ! i)\<lparr>corner := Some (Corner
          (if outerSubPoints (ls ! i) = [] then None else Some (last (outerSubPoints (ls ! i))))
          (if nextI < length outerPts then Some (outerPts ! nextI) else None)
          (if outerSubPoints (ls ! nextI) = [] then None
           else Some (hd (outerSubPoints (ls ! nextI))))
          (if innerSubPoints (ls ! nextI) = [] then None
           else Some (hd (innerSubPoints (ls ! nextI))))
          (if nextI < length innerPts then Some (innerPts ! nextI) else None)
          (if innerSubPoints (ls ! i) = [] then None
           else Some (last (innerSubPoints (ls ! i)))))\<rparr>
     \<and> (\<forall>j < length pts. \<exists>g. corner (ls' ! j) = Some g)"
proof -
  have len: "length ls = length pts"
    by (simp add: ls_def length_calculateLines)
  have i: "i < length ls"
    using assms(1) len by simp
  have eq: "length (outerSubPoints (ls ! i)) = length (innerSubPoints (ls ! i))"
    unfolding ls_def using assms(1) by (rule calculateLines_nth_lengths)
  have nx: "safeIndex (length ls) (i + 1) = nextI"
    by (simp add: safeIndex_def nextI_def len)
  have a: "length ls' = length pts"
    by (simp add: ls'_def length_calculateCorners len)
  have "ls' ! i = (ls ! i)\<lparr>corner := Some (newCorner outerPts innerPts ls i)\<rparr>"
    unfolding ls'_def using i by (rule calculateCorners_nth)
  also have "newCorner outerPts innerPts ls i = Corner
          (if outerSubPoints (ls ! i) = [] then None else Some (last (outerSubPoints (ls ! i))))
          (if nextI < length outerPts then Some (outerPts ! nextI) else None)
          (if outerSubPoints (ls ! nextI) = [] then None
           else Some (hd (outerSubPoints (ls ! nextI))))
          (if innerSubPoints (ls ! nextI) = [] then None
           else Some (hd (innerSubPoints (ls ! nextI))))
          (if nextI < length innerPts then Some (innerPts ! nextI) else None)
          (if innerSubPoints (ls ! i) = [] then None
           else Some (last (innerSubPoints (ls ! i))))"
    unfolding newCorner_def Let_def nx
    unfolding jsIndex_last jsIndex_first jsIndex_nat
    unfolding eq jsIndex_last
    by (rule refl)
  finally have b: "ls' ! i = (ls ! i)\<lparr>corner := Some (Corner
          (if outerSubPoints (ls ! i) = [] then None else Some (last (outerSubPoints (ls ! i))))
          (if nextI < length outerPts then Some (outerPts ! nextI) else None)
          (if outerSubPoints (ls ! nextI) = [] then None
           else Some (hd (outerSubPoints (ls ! nextI))))
          (if innerSubPoints (ls ! nextI) = [] then None
           else Some (hd (innerSubPoints (ls ! nextI))))
          (if nextI < length innerPts then Some (innerPts ! nextI) else None)
          (if innerSubPoints (ls ! i) = [] then None
           else Some (last (innerSubPoints (ls ! i)))))\<rparr>" .
  have d: "\<forall>j < length pts. \<exists>g. corner (ls' ! j) = Some g"
    by (simp add: ls'_def calculateCorners_nth len)
  from a b d show ?thesis by blast
qed

text \<open>On the square, the corner of the last edge wraps around to the first edge.\<close>

theorem C4_corner_witness:
  "(3::nat) < length square
   \<and> corner (calculateCorners (offset sample square finWidth) (offset sample square (- finWidth))
        (calculateLines sample square) ! 3)
     = Some (Corner (Some (- 25 / 2, 15)) (Some (- 25 / 2, - 25 / 2)) (Some (15, - 25 / 2))
          (Some (15, 25 / 2)) (Some (25 / 2, 25 / 2)) (Some (25 / 2, 15)))"
proof -
  have h: "(3::nat) < length square"
    by (simp add: square_def)
  have n: "(3 + 1) mod length square = 0"
    by (simp add: square_def)
  note t = C4_corner[OF h, where c = sample and outerPts = "offset sample square finWidth"
      and innerPts = "offset sample square (- finWidth)", THEN conjunct2, THEN conjunct1]
  show ?thesis
    unfolding t n
    by (simp add: h square_line0 square_line3 bottom_edge left_edge sample_simps
        boxOffset_square finWidth_def)
qed

text \<open>
  C5. For every edge \<open>i\<close> and its cyclic successor, the reinforcer loop at index \<open>i\<close> is
  the concatenation of the outer points of the tiles of the group [last two Blocks of edge
  \<open>i\<close>, Corner of edge \<open>i\<close>, first two Blocks of the successor], in group order, followed
  by the inner points of the same tiles in reverse group order. The Blocks are taken in the
  order in which \<open>calculateLines\<close> built them; an edge with fewer than two Blocks gives all
  it has.
\<close>

theorem C5_reinforcer:
  fixes c :: collab
  assumes "newWren c raw = Inr w" and "i < length (points w)"
  defines "ls0 \<equiv> calculateLines c (points w)"
  defines "nextI \<equiv> (i + 1) mod length (points w)"
  shows "length (reinforcers w) = length (points w)
     \<and> (\<exists>cnr. corner (lines w ! i) = Some cnr
          \<and> reinforcers w ! i =
              concat (map (tileOuterPoints c)
                (drop (length (blocks (ls0 ! i)) - 2) (blocks (ls0 ! i)) @ [cnr]
                   @ take 2 (blocks (ls0 ! nextI))))
              @ concat (map (tileInnerPoints c)
                  (rev (drop (length (blocks (ls0 ! i)) - 2) (blocks (ls0 ! i)) @ [cnr]
                     @ take 2 (blocks (ls0 ! nextI))))))"
proof -
  note f = newWren_fields[OF assms(1)]
  define op where "op = offset c raw finWidth"
  define ip where "ip = offset c raw (- finWidth)"
  define ls1 where "ls1 = calculateCorners op ip ls0"
  have ls0: "ls0 = calculateLines c (offset c raw 0)"
    by (simp add: ls0_def f(1))
  have len0: "length ls0 = length (points w)"
    by (simp add: ls0_def length_calculateLines)
  have len1: "length ls1 = length (points w)"
    by (simp add: ls1_def length_calculateCorners len0)
  have i0: "i < length ls0" and i1: "i < length ls1"
    using assms(2) len0 len1 by simp_all
  have nx: "safeIndex (length ls1) (i + 1) = nextI"
    by (simp add: safeIndex_def nextI_def len1)
  have nxlt: "nextI < length ls0"
    unfolding nextI_def len0 using assms(2) by (intro mod_less_divisor) auto
  have cn: "\<And>j. j < length ls1 \<Longrightarrow> corner (ls1 ! j) = Some (newCorner op ip ls0 j)"
    by (simp add: ls1_def length_calculateCorners calculateCorners_nth)
  have "calculateReinforcers c ls1 = Inr (reinforcers w)"
    using f(9) by (simp add: ls1_def op_def ip_def ls0)
  with calculateReinforcers_eq[of ls1 "newCorner op ip ls0" c, OF cn]
  have r: "reinforcers w =
      map (\<lambda>j. ring c (sliceLast2 (blocks (ls1 ! j)) @ [newCorner op ip ls0 j]
                @ take 2 (blocks (ls1 ! safeIndex (length ls1) (j + 1))))) [0 ..< length ls1]"
    by simp
  have a: "length (reinforcers w) = length (points w)"
    by (simp add: r len1)
  have b1: "blocks (ls1 ! i) = blocks (ls0 ! i)" "blocks (ls1 ! nextI) = blocks (ls0 ! nextI)"
    using i0 nxlt by (simp_all add: ls1_def calculateCorners_nth)
  have lw: "lines w = map (\<lambda>l. l\<lparr>blocks := rev (blocks l)\<rparr>) ls1"
    using f(5) by (simp add: ls1_def op_def ip_def ls0)
  have cw: "corner (lines w ! i) = Some (newCorner op ip ls0 i)"
    using i1 by (simp add: lw cn)
  have "reinforcers w ! i =
      ring c (sliceLast2 (blocks (ls1 ! i)) @ [newCorner op ip ls0 i]
                @ take 2 (blocks (ls1 ! safeIndex (length ls1) (i + 1))))"
    unfolding r using i1 by simp
  then have ri: "reinforcers w ! i =
              concat (map (tileOuterPoints c)
                (drop (length (blocks (ls0 ! i)) - 2) (blocks (ls0 ! i)) @ [newCorner op ip ls0 i]
                   @ take 2 (blocks (ls0 ! nextI))))
              @ concat (map (tileInnerPoints c)
                  (rev (drop (length (blocks (ls0 ! i)) - 2) (blocks (ls0 ! i))
                     @ [newCorner op ip ls0 i] @ take 2 (blocks (ls0 ! nextI)))))"
    unfolding nx b1 ring_def sliceLast2_def .
  from a cw ri show ?thesis by blast
qed

text \<open>
  On the square, with tiles that expose the points they were built from: the reinforcer
  around the vertex \<open>(100, 0)\<close> runs along the outside from \<open>x = 45\<close> on the bottom edge
  to \<open>y = 55\<close> on the right edge, and back along the inside.
\<close>

theorem C5_reinforcer_witness:
  "\<exists>w. newWren sample square = Inr w
     \<and> (0::nat) < length (points w)
     \<and> corner (lines w ! 0)
         = Some (Corner (Some (85, - 25 / 2)) (Some (225 / 2, - 25 / 2)) (Some (225 / 2, 15))
             (Some (175 / 2, 15)) (Some (175 / 2, 25 / 2)) (Some (85, 25 / 2)))
     \<and> reinforcers w ! 0 =
         [(45, - 25 / 2), (55, - 25 / 2), (55, - 25 / 2), (85, - 25 / 2),
          (85, - 25 / 2), (225 / 2, - 25 / 2), (225 / 2, 15),
          (225 / 2, 15), (225 / 2, 45), (225 / 2, 45), (225 / 2, 55),
          (175 / 2, 55), (175 / 2, 45), (175 / 2, 45), (175 / 2, 15),
          (175 / 2, 15), (175 / 2, 25 / 2), (85, 25 / 2),
          (85, 25 / 2), (55, 25 / 2), (55, 25 / 2), (45, 25 / 2)]"
proof -
  from sample_square_returns obtain w where w: "newWren sample square = Inr w" ..
  have p: "points w = square"
    using newWren_fields(1)[OF w] by (simp add: sample_simps boxOffset_square0)
  have h: "(0::nat) < length (points w)"
    by (simp add: p length_square)
  have n: "(0 + 1) mod length (points w) = 1"
    by (simp add: p length_square)
  have "lines w = map (\<lambda>l. l\<lparr>blocks := rev (blocks l)\<rparr>)
      (calculateCorners (boxOffset square finWidth) (boxOffset square (- finWidth))
         (calculateLines sample square))"
    using newWren_fields(5)[OF w] by (simp only: sample_simps boxOffset_square0)
  then have "corner (lines w ! 0) = Some (newCorner (boxOffset square finWidth)
      (boxOffset square (- finWidth)) (calculateLines sample square) 0)"
    by (simp add: length_calculateCorners length_calculateLines length_square
        calculateCorners_nth)
  then have cw: "corner (lines w ! 0)
         = Some (Corner (Some (85, - 25 / 2)) (Some (225 / 2, - 25 / 2)) (Some (225 / 2, 15))
             (Some (175 / 2, 15)) (Some (175 / 2, 25 / 2)) (Some (85, 25 / 2)))"
    by (simp only: square_corner0)
  from C5_reinforcer[OF w h] obtain cnr where
    c1: "corner (lines w ! 0) = Some cnr" and
    c2: "reinforcers w ! 0 =
              concat (map (tileOuterPoints sample)
                (drop (length (blocks (calculateLines sample (points w) ! 0)) - 2)
                   (blocks (calculateLines sample (points w) ! 0)) @ [cnr]
                   @ take 2 (blocks (calculateLines sample (points w)
                       ! ((0 + 1) mod length (points w))))))
              @ concat (map (tileInnerPoints sample)
                  (rev (drop (length (blocks (calculateLines sample (points w) ! 0)) - 2)
                     (blocks (calculateLines sample (points w) ! 0)) @ [cnr]
                     @ take 2 (blocks (calculateLines sample (points w)
                         ! ((0 + 1) mod length (points w)))))))"
    by blast
  from c1 cw have cnr: "cnr = Corner (Some (85, - 25 / 2)) (Some (225 / 2, - 25 / 2))
      (Some (225 / 2, 15)) (Some (175 / 2, 15)) (Some (175 / 2, 25 / 2)) (Some (85, 25 / 2))"
    by simp
  have r: "reinforcers w ! 0 =
         [(45, - 25 / 2), (55, - 25 / 2), (55, - 25 / 2), (85, - 25 / 2),
          (85, - 25 / 2), (225 / 2, - 25 / 2), (225 / 2, 15),
          (225 / 2, 15), (225 / 2, 45), (225 / 2, 45), (225 / 2, 55),
          (175 / 2, 55), (175 / 2, 45), (175 / 2, 45), (175 / 2, 15),
          (175 / 2, 15), (175 / 2, 25 / 2), (85, 25 / 2),
          (85, 25 / 2), (55, 25 / 2), (55, 25 / 2), (45, 25 / 2)]"
    unfolding c2 n unfolding p square_line0 square_line1 bottom_edge right_edge cnr
    by (simp add: sample_simps shownOuter_def shownInner_def List.map_filter_simps)
  from w h cw r show ?thesis by blast
qed

text \<open>
  C6. The working polygon \<open>points\<close> is the offsetter applied to the raw input with delta 0;
  \<open>outerPoints\<close> and \<open>innerPoints\<close> are the offsetter applied to the raw input itself (not
  to the working polygon) with delta \<open>finWidth\<close> and \<open>- finWidth\<close>, where \<open>finWidth\<close> is 12.5.
\<close>

theorem C6_offsets:
  assumes "newWren c raw = Inr w"
  shows "points w = offset c raw 0
     \<and> outerPoints w = offset c raw finWidth
     \<and> innerPoints w = offset c raw (- finWidth)
     \<and> finWidth = 25 / 2"
  using newWren_fields(1-3)[OF assms] by (simp add: finWidth_def)

text \<open>On the square, with the box offsetter.\<close>

theorem C6_offsets_witness:
  "\<exists>w. newWren sample square = Inr w
     \<and> points w = [(0, 0), (100, 0), (100, 100), (0, 100)]
     \<and> outerPoints w = [(- 25 / 2, - 25 / 2), (225 / 2, - 25 / 2), (225 / 2, 225 / 2), (- 25 / 2, 225 / 2)]
     \<and> innerPoints w = [(25 / 2, 25 / 2), (175 / 2, 25 / 2), (175 / 2, 175 / 2), (25 / 2, 175 / 2)]"
proof -
  from sample_square_returns obtain w where w: "newWren sample square = Inr w" ..
  from C6_offsets[OF w] w show ?thesis
    by (simp add: sample_simps boxOffset_square finWidth_def)
qed



text \<open>
  C8. An edge strictly shorter than twice \<open>pointDistance\<close> has no sub-points and no blocks,
  and every edge of the polygon is computed from its own two end points alone, so the other
  edges are what they would be in isolation.
\<close>

theorem C8_short_edge:
  assumes "i < length pts"
    and "distance c (pts ! i) (pts ! ((i + 1) mod length pts)) < 2 * pointDistance"
  shows "subPoints (calculateLines c pts ! i) = []
     \<and> blocks (calculateLines c pts ! i) = []
     \<and> (\<forall>j < length pts.
          calculateLines c pts ! j = calculateLine c (pts ! j, pts ! ((j + 1) mod length pts)))"
proof -
  let ?a = "pts ! i" and ?b = "pts ! ((i + 1) mod length pts)"
  have l: "calculateLines c pts ! i = calculateLine c (?a, ?b)"
    using assms(1) by (rule calculateLines_nth)
  have "distance c ?a ?b / 2 \<le> pointDistance"
    using assms(2) by simp
  then have "stepDistances (distance c ?a ?b / 2) pointDistance = []"
    by (rule stepDistances_empty)
  then have sub: "subPoints (calculateLine c (?a, ?b)) = []"
    by (simp add: subPoints_calculateLine)
  have "length (blocks (calculateLine c (?a, ?b))) = length (subPoints (calculateLine c (?a, ?b))) - 1"
    by (rule lengths_calculateLine(3))
  then have "length (blocks (calculateLine c (?a, ?b))) = 0"
    unfolding sub by simp
  then have blk: "blocks (calculateLine c (?a, ?b)) = []"
    by simp
  from sub blk show ?thesis
    unfolding l by (simp add: calculateLines_nth)
qed

text \<open>
  The triangle \<open>(0, 0), (10, 0), (0, 100)\<close>: its first edge has length 10 and stays empty,
  its second edge is the line of \<open>(10, 0), (0, 100)\<close>.
\<close>

theorem C8_short_edge_witness:
  "(0::nat) < length shortTriangle
   \<and> distance sample (0, 0) (10, 0) < 2 * pointDistance
   \<and> subPoints (calculateLines sample shortTriangle ! 0) = []
   \<and> blocks (calculateLines sample shortTriangle ! 0) = []
   \<and> calculateLines sample shortTriangle ! 1 = calculateLine sample ((10, 0), (0, 100))"
proof -
  have h1: "(0::nat) < length shortTriangle"
    by (simp add: triangle_edges)
  have d: "distance sample (0, 0) (10, 0) < 2 * pointDistance"
    by (simp add: sample_simps euclidean_axis pointDistance_def)
  have h2: "distance sample (shortTriangle ! 0)
      (shortTriangle ! ((0 + 1) mod length shortTriangle)) < 2 * pointDistance"
    by (simp add: shortTriangle_def sample_simps euclidean_axis pointDistance_def)
  note t = C8_short_edge[OF h1 h2]
  from t have s1: "subPoints (calculateLines sample shortTriangle ! 0) = []"
    by (rule conjunct1)
  from t have s2: "blocks (calculateLines sample shortTriangle ! 0) = []"
    by (rule conjunct1[OF conjunct2])
  from t have "\<forall>j < length shortTriangle. calculateLines sample shortTriangle ! j
      = calculateLine sample (shortTriangle ! j, shortTriangle ! ((j + 1) mod length shortTriangle))"
    by (rule conjunct2[OF conjunct2])
  then have "calculateLines sample shortTriangle ! 1
      = calculateLine sample (shortTriangle ! 1, shortTriangle ! ((1 + 1) mod length shortTriangle))"
    by (simp add: triangle_edges(5))
  then have s3: "calculateLines sample shortTriangle ! 1 = calculateLine sample ((10, 0), (0, 100))"
    by (simp add: shortTriangle_def)
  from h1 d s1 s2 s3 show ?thesis
    by simp
qed

text \<open>
  C9. \<open>calculateFinPieces\<close> reverses the \<open>blocks\<close> array of every line in place. After the
  constructor has returned, the \<open>blocks\<close> of every edge are the reverse of the order in
  which \<open>calculateLines\<close> built them, while the reinforcers, computed before the fin
  pieces, were aggregated from the lines in the original order.
\<close>

theorem C9_blocks_reversed:
  fixes c :: collab
  assumes "newWren c raw = Inr w"
  defines "ls0 \<equiv> calculateLines c (points w)"
  defines "ls1 \<equiv> calculateCorners (outerPoints w) (innerPoints w) ls0"
  shows "length (lines w) = length ls0
     \<and> (\<forall>i < length ls0. blocks (lines w ! i) = rev (blocks (ls0 ! i)))
     \<and> lines w = fst (calculateFinPieces c ls1)
     \<and> finPieces w = snd (calculateFinPieces c ls1)
     \<and> (\<forall>i < length ls0. blocks (ls1 ! i) = blocks (ls0 ! i))
     \<and> calculateReinforcers c ls1 = Inr (reinforcers w)"
proof -
  note f = newWren_fields[OF assms(1)]
  have ls1: "ls1 = calculateCorners (offset c raw finWidth) (offset c raw (- finWidth))
      (calculateLines c (offset c raw 0))"
    by (simp add: ls1_def ls0_def f(1-3))
  have lw: "lines w = map (\<lambda>l. l\<lparr>blocks := rev (blocks l)\<rparr>) ls1"
    unfolding ls1 by (rule f(5))
  have len1: "length ls1 = length ls0"
    by (simp add: ls1_def length_calculateCorners)
  have b1: "\<forall>i < length ls0. blocks (ls1 ! i) = blocks (ls0 ! i)"
    by (simp add: ls1_def blocks_calculateCorners)
  have a: "length (lines w) = length ls0"
    by (simp add: lw len1)
  have b: "\<forall>i < length ls0. blocks (lines w ! i) = rev (blocks (ls0 ! i))"
    using b1 by (simp add: lw len1)
  have d: "lines w = fst (calculateFinPieces c ls1)"
    by (simp add: lw calculateFinPieces_eq)
  have e: "finPieces w = snd (calculateFinPieces c ls1)"
    unfolding ls1 by (simp add: f(6) calculateFinPieces_eq)
  have r: "calculateReinforcers c ls1 = Inr (reinforcers w)"
    unfolding ls1 by (rule f(9))
  from a b d e b1 r show ?thesis by blast
qed

text \<open>On the square: the three blocks of the bottom edge, as built and as exposed.\<close>

theorem C9_blocks_reversed_witness:
  "\<exists>w. newWren sample square = Inr w
     \<and> blocks (calculateLines sample (points w) ! 0) =
         [Block 0 (15, 0) (15, 25 / 2) (45, 25 / 2) (45, - 25 / 2) (15, - 25 / 2),
          Block 0 (45, 0) (45, 25 / 2) (55, 25 / 2) (55, - 25 / 2) (45, - 25 / 2),
          Block 0 (55, 0) (55, 25 / 2) (85, 25 / 2) (85, - 25 / 2) (55, - 25 / 2)]
     \<and> blocks (lines w ! 0) =
         [Block 0 (55, 0) (55, 25 / 2) (85, 25 / 2) (85, - 25 / 2) (55, - 25 / 2),
          Block 0 (45, 0) (45, 25 / 2) (55, 25 / 2) (55, - 25 / 2) (45, - 25 / 2),
          Block 0 (15, 0) (15, 25 / 2) (45, 25 / 2) (45, - 25 / 2) (15, - 25 / 2)]"
proof -
  from sample_square_returns obtain w where w: "newWren sample square = Inr w" ..
  have p: "points w = square"
    using newWren_fields(1)[OF w] by (simp add: sample_simps boxOffset_square0)
  have n: "0 < length (calculateLines sample (points w))"
    by (simp add: p length_calculateLines square_def)
  have b0: "blocks (calculateLines sample (points w) ! 0) =
         [Block 0 (15, 0) (15, 25 / 2) (45, 25 / 2) (45, - 25 / 2) (15, - 25 / 2),
          Block 0 (45, 0) (45, 25 / 2) (55, 25 / 2) (55, - 25 / 2) (45, - 25 / 2),
          Block 0 (55, 0) (55, 25 / 2) (85, 25 / 2) (85, - 25 / 2) (55, - 25 / 2)]"
    unfolding p square_line0 by (rule square_blocks0)
  from C9_blocks_reversed[OF w] n
  have "blocks (lines w ! 0) = rev (blocks (calculateLines sample (points w) ! 0))"
    by blast
  with w b0 show ?thesis
    by simp
qed

text \<open>
  C10. \<open>calculateWalls\<close> reads \<open>this.lines[i].angle\<close> for every index of the offset
  polygon with no bound check: it throws exactly when that polygon has more points than
  there are lines. There are as many lines as working points, so the constructor returns a
  Wren exactly when the inner and the outer offset polygon have at most as many points as
  the working polygon, and fails with a TypeError otherwise.
\<close>

theorem C10_walls_unguarded:
  fixes c :: collab and raw :: "point list"
  defines "n \<equiv> length (calculateLines c (offset c raw 0))"
  shows "n = length (offset c raw 0)
     \<and> (calculateWalls c ls pts d = Inl TypeError) = (length ls < length pts)
     \<and> (\<exists>w. newWren c raw = Inr w)
         = (length (offset c raw (- finWidth)) \<le> n \<and> length (offset c raw finWidth) \<le> n)
     \<and> (n < length (offset c raw (- finWidth)) \<or> n < length (offset c raw finWidth)
          \<longrightarrow> newWren c raw = Inl TypeError)"
proof -
  have n: "n = length (offset c raw 0)"
    by (simp add: n_def length_calculateLines)
  have w: "(calculateWalls c ls pts d = Inl TypeError) = (length ls < length pts)"
  proof (cases "length ls < length pts")
    case True
    then show ?thesis by (simp add: calculateWalls_fail)
  next
    case False
    then have "length pts \<le> length ls" by simp
    from calculateWalls_ok[OF this] False show ?thesis by simp
  qed
  have f: "n < length (offset c raw (- finWidth)) \<or> n < length (offset c raw finWidth)
          \<longrightarrow> newWren c raw = Inl TypeError"
    unfolding n using newWren_fail by blast
  have r: "(\<exists>w. newWren c raw = Inr w)
         = (length (offset c raw (- finWidth)) \<le> n \<and> length (offset c raw finWidth) \<le> n)"
  proof
    assume "\<exists>w. newWren c raw = Inr w"
    then obtain w where "newWren c raw = Inr w" ..
    from newWren_Inr_lengths[OF this] show
      "length (offset c raw (- finWidth)) \<le> n \<and> length (offset c raw finWidth) \<le> n"
      unfolding n by simp
  next
    assume "length (offset c raw (- finWidth)) \<le> n \<and> length (offset c raw finWidth) \<le> n"
    then have "length (offset c raw (- finWidth)) \<le> length (offset c raw 0)"
      and "length (offset c raw finWidth) \<le> length (offset c raw 0)"
      unfolding n by simp_all
    from newWren_ok[OF this] show "\<exists>w. newWren c raw = Inr w" by blast
  qed
  from n w r f show ?thesis by blast
qed

text \<open>
  On the square: with the bevelling offsetter the outer polygon has 8 points for 4 lines and
  the constructor fails; with the box offsetter it returns.
\<close>

theorem C10_walls_unguarded_witness:
  "length (offset bevelSample square 0) = 4
   \<and> length (offset bevelSample square finWidth) = 8
   \<and> newWren bevelSample square = Inl TypeError
   \<and> (\<exists>w. newWren sample square = Inr w)"
proof -
  have l: "length (calculateLines bevelSample (offset bevelSample square 0)) = 4"
    by (simp add: length_calculateLines bevelSample_simps bevelOffset_square)
  have "length (calculateLines bevelSample (offset bevelSample square 0))
      < length (offset bevelSample square finWidth)"
    unfolding l by (simp add: bevelSample_simps bevelOffset_square)
  with C10_walls_unguarded[where c = bevelSample and raw = square]
  have "newWren bevelSample square = Inl TypeError"
    by blast
  moreover have "length (offset sample square (- finWidth))
      \<le> length (calculateLines sample (offset sample square 0))"
    and "length (offset sample square finWidth)
      \<le> length (calculateLines sample (offset sample square 0))"
    by (simp_all add: length_calculateLines sample_simps boxOffset_square)
  with C10_walls_unguarded[where c = sample and raw = square]
  have "\<exists>w. newWren sample square = Inr w"
    by blast
  ultimately show ?thesis
    by (simp add: bevelSample_simps bevelOffset_square)
qed

end
